theory Spec2Isabelle
  imports Main "HOL-Library.Word"
begin

section \<open>Common types\<close>

text \<open>
  The C++ sources use \<open>uint32_t\<close> for ledger sequences and for the counters of the
  DOS guard, and \<open>size_t\<close> for the attempt number of \<open>Retry\<close>. Both wrap around.
\<close>

type_synonym uint32 = "32 word"
type_synonym size_t = "64 word"

text \<open>
  Ways in which a call ends without returning to its caller. \<open>DivisionByZero\<close> is the
  integer remainder by zero of \<open>rand() % sources_.size()\<close> on an empty vector, which is
  undefined behaviour in C++ and no defined error of the program. \<open>AssertionFailure\<close>
  is a failed \<open>ASSERT\<close>.
\<close>

datatype fault = DivisionByZero | AssertionFailure

section \<open>web::dosguard::DOSGuard\<close>

text \<open>
  \<open>ClientState\<close> and the members of \<open>DOSGuard\<close> are declared in DOSGuard.hpp. The
  counters are \<open>uint32_t\<close>, as the parameter \<open>numObjects\<close> of \<open>add\<close> is. The two
  \<open>unordered_map\<close>s are partial maps from the ip string. The whitelist handler is an
  interface of which only \<open>isWhiteListed\<close> is called: it is a predicate on ip strings.
  The mutex is not modelled: calls are taken one at a time.
\<close>

record ClientState =
  transferedByte :: uint32
  requestsCount :: uint32

record DOSGuard =
  whitelistHandler :: "string \<Rightarrow> bool"
  maxFetches :: uint32
  maxConnCount :: uint32
  maxRequestCount :: uint32
  ipState :: "string \<rightharpoonup> ClientState"
  ipConnCount :: "string \<rightharpoonup> uint32"

definition isWhiteListed :: "DOSGuard \<Rightarrow> string \<Rightarrow> bool" where
  "isWhiteListed g ip = whitelistHandler g ip"

text \<open>
  \<open>isOk\<close>: a whitelisted ip passes. Otherwise the entry of \<open>ipState_\<close>, when there is
  one, is checked against the two limits, then the entry of \<open>ipConnCount_\<close>, when
  there is one, against the third.
\<close>

definition isOk :: "DOSGuard \<Rightarrow> string \<Rightarrow> bool" where
  "isOk g ip =
     (if whitelistHandler g ip then True
      else if (case ipState g ip of
                 None \<Rightarrow> False
               | Some st \<Rightarrow> transferedByte st > maxFetches g \<or> requestsCount st > maxRequestCount g)
           then False
      else if (case ipConnCount g ip of
                 None \<Rightarrow> False
               | Some c \<Rightarrow> c > maxConnCount g)
           then False
      else True)"

text \<open>
  \<open>operator[]\<close> of \<open>unordered_map\<close> inserts a value-initialised entry for a missing key
  and returns a reference to it.
\<close>

definition state_at :: "(string \<rightharpoonup> ClientState) \<Rightarrow> string \<Rightarrow> ClientState" where
  "state_at m ip =
     (case m ip of None \<Rightarrow> \<lparr>transferedByte = 0, requestsCount = 0\<rparr> | Some st \<Rightarrow> st)"

definition count_at :: "(string \<rightharpoonup> uint32) \<Rightarrow> string \<Rightarrow> uint32" where
  "count_at m ip = (case m ip of None \<Rightarrow> 0 | Some c \<Rightarrow> c)"

definition increment :: "DOSGuard \<Rightarrow> string \<Rightarrow> DOSGuard" where
  "increment g ip =
     (if whitelistHandler g ip then g
      else g\<lparr>ipConnCount := (ipConnCount g)(ip \<mapsto> count_at (ipConnCount g) ip + 1)\<rparr>)"

text \<open>
  Modelled from the spec: the macro \<open>ASSERT\<close> of util/Assert.hpp is not among the
  sources. The spec calls a failed invariant check a programming-error condition that
  must be loud (an assertion failure) and never silently clamped: when the condition is
  false the call ends with \<open>AssertionFailure\<close>, otherwise it goes on.
\<close>

definition ASSERT :: "bool \<Rightarrow> fault + 'a \<Rightarrow> fault + 'a" where
  "ASSERT cond rest = (if cond then rest else Inl AssertionFailure)"

text \<open>
  \<open>decrement\<close>: the \<open>operator[]\<close> inside the assertion inserts a zero entry for a
  missing ip before the comparison; the entry is decremented and erased when it
  reaches zero.
\<close>

definition decrement :: "DOSGuard \<Rightarrow> string \<Rightarrow> fault + DOSGuard" where
  "decrement g ip =
     (if whitelistHandler g ip then Inr g
      else
        let c = count_at (ipConnCount g) ip;
            m0 = (ipConnCount g)(ip \<mapsto> c)
        in ASSERT (c > 0)
             (let m1 = m0(ip \<mapsto> c - 1)
              in Inr (g\<lparr>ipConnCount := (if count_at m1 ip = 0 then m1(ip := None) else m1)\<rparr>)))"

definition add :: "DOSGuard \<Rightarrow> string \<Rightarrow> uint32 \<Rightarrow> bool \<times> DOSGuard" where
  "add g ip numObjects =
     (if whitelistHandler g ip then (True, g)
      else
        let st = state_at (ipState g) ip;
            g' = g\<lparr>ipState := (ipState g)(ip \<mapsto> st\<lparr>transferedByte := transferedByte st + numObjects\<rparr>)\<rparr>
        in (isOk g' ip, g'))"

definition request :: "DOSGuard \<Rightarrow> string \<Rightarrow> bool \<times> DOSGuard" where
  "request g ip =
     (if whitelistHandler g ip then (True, g)
      else
        let st = state_at (ipState g) ip;
            g' = g\<lparr>ipState := (ipState g)(ip \<mapsto> st\<lparr>requestsCount := requestsCount st + 1\<rparr>)\<rparr>
        in (isOk g' ip, g'))"

definition clear :: "DOSGuard \<Rightarrow> DOSGuard" where
  "clear g = g\<lparr>ipState := Map.empty\<rparr>"

text \<open>
  The values returned by \<open>n\<close> consecutive calls of \<open>request\<close> for one ip, oldest
  first, and the guard after the last call.
\<close>

fun requests :: "nat \<Rightarrow> DOSGuard \<Rightarrow> string \<Rightarrow> bool list \<times> DOSGuard" where
  "requests 0 g ip = ([], g)"
| "requests (Suc n) g ip =
     (let (b, g') = request g ip; (bs, g'') = requests n g' ip in (b # bs, g''))"

section \<open>LoadBalancer\<close>

text \<open>
  \<open>sources_\<close> is a vector of owned Source objects, filled once by the constructor
  from \<open>make_unique\<close>, so no entry is null. The class Source is declared in etl/Source.h,
  which is not among the sources: a Source is a value of a type \<open>'src\<close>, and the member
  functions the balancer calls are parameters. A Source changes in the background
  between two calls, so \<open>hasLedger\<close>, the worker and \<open>forwardToRippled\<close> take one more
  argument first: the number of earlier iterations of the calling loop.
  \<open>rnd\<close> is the value returned by \<open>rand()\<close>, which is never negative.
  The counter \<open>numAttempts\<close> is an \<open>int\<close> of the code; it is a natural number here and
  its overflow after \<open>2^31\<close> attempts is not modelled.
\<close>

text \<open>
  What one iteration of the loop of \<open>execute\<close> does with its Source, named after the
  log line it writes, and the pause at the end of a full pass.
\<close>

datatype event = NotPresent nat | WorkerFailed nat | WorkerOk nat | Sleep2s

text \<open>
  The body of the loop up to the \<open>break\<close>: the result of the worker (\<open>False\<close> when the
  ledger is not present), the state of the variables the worker captures by reference,
  and the event.
\<close>

definition attempt ::
  "(nat \<Rightarrow> 'src \<Rightarrow> uint32 \<Rightarrow> bool) \<Rightarrow> (nat \<Rightarrow> 'src \<Rightarrow> 'st \<Rightarrow> bool \<times> 'st) \<Rightarrow> uint32 \<Rightarrow>
     nat \<Rightarrow> 'src \<Rightarrow> nat \<Rightarrow> 'st \<Rightarrow> bool \<times> 'st \<times> event" where
  "attempt hasLedger f ledgerSequence numAttempts source sourceIdx st =
     (if hasLedger numAttempts source ledgerSequence then
        (let (res, st') = f numAttempts source st
         in if res then (True, st', WorkerOk sourceIdx) else (False, st', WorkerFailed sourceIdx))
      else (False, st, NotPresent sourceIdx))"

text \<open>
  The \<open>while (true)\<close> loop. It has no bound: a call that never leaves the loop has the
  value \<open>None\<close>. After the \<open>break\<close> the function returns \<open>true\<close>.
\<close>

partial_function (option) execute_loop ::
  "'src list \<Rightarrow> (nat \<Rightarrow> 'src \<Rightarrow> uint32 \<Rightarrow> bool) \<Rightarrow> (nat \<Rightarrow> 'src \<Rightarrow> 'st \<Rightarrow> bool \<times> 'st) \<Rightarrow> uint32 \<Rightarrow>
     nat \<Rightarrow> nat \<Rightarrow> 'st \<Rightarrow> event list \<Rightarrow> (bool \<times> 'st \<times> event list) option" where
  "execute_loop sources hasLedger f ledgerSequence sourceIdx numAttempts st log =
     (case attempt hasLedger f ledgerSequence numAttempts (sources ! sourceIdx) sourceIdx st of
        (res, st', ev) \<Rightarrow>
          if res then Some (True, st', log @ [ev])
          else execute_loop sources hasLedger f ledgerSequence
                 ((sourceIdx + 1) mod length sources) (numAttempts + 1) st'
                 (log @ [ev] @ (if (numAttempts + 1) mod length sources = 0 then [Sleep2s] else [])))"

declare execute_loop.simps [code]

text \<open>
  \<open>execute\<close>: the starting index is \<open>rand() % sources_.size()\<close>, a remainder by zero
  when the pool is empty.
\<close>

definition execute ::
  "'src list \<Rightarrow> (nat \<Rightarrow> 'src \<Rightarrow> uint32 \<Rightarrow> bool) \<Rightarrow> nat \<Rightarrow> (nat \<Rightarrow> 'src \<Rightarrow> 'st \<Rightarrow> bool \<times> 'st) \<Rightarrow> uint32 \<Rightarrow>
     'st \<Rightarrow> (fault + bool \<times> 'st \<times> event list) option" where
  "execute sources hasLedger rnd f ledgerSequence st =
     (if length sources = 0 then Some (Inl DivisionByZero)
      else map_option Inr
             (execute_loop sources hasLedger f ledgerSequence (rnd mod length sources) 0 st []))"

text \<open>
  \<open>loadInitialLedger\<close>: the worker keeps the downloaded data in \<open>response\<close> when the
  Source reports success. \<open>downloadRanges\<close> is the member \<open>downloadRanges_\<close>.
\<close>

definition loadInitialLedger ::
  "'src list \<Rightarrow> (nat \<Rightarrow> 'src \<Rightarrow> uint32 \<Rightarrow> bool) \<Rightarrow>
     (nat \<Rightarrow> 'src \<Rightarrow> uint32 \<Rightarrow> uint32 \<Rightarrow> bool \<Rightarrow> string list \<times> bool) \<Rightarrow> uint32 \<Rightarrow> nat \<Rightarrow>
     uint32 \<Rightarrow> bool \<Rightarrow> (fault + string list \<times> bool) option" where
  "loadInitialLedger sources hasLedger sourceLoadInitialLedger downloadRanges rnd sequence cacheOnly =
     (case execute sources hasLedger rnd
             (\<lambda>t source response.
                let (data, res) = sourceLoadInitialLedger t source sequence downloadRanges cacheOnly
                in (res, if \<not> res then response else data))
             sequence []
      of None \<Rightarrow> None
       | Some (Inl e) \<Rightarrow> Some (Inl e)
       | Some (Inr (success, response, log)) \<Rightarrow> Some (Inr (response, success)))"

text \<open>
  \<open>fetchLedger\<close>: the worker stores the data of every fetch in \<open>response\<close> and succeeds
  when the status is ok and the response is validated. The result is an optional
  response; \<open>None\<close> is the empty result \<open>{}\<close>. \<open>emptyResponse\<close> is the default-constructed
  response.
\<close>

definition fetchLedger ::
  "'src list \<Rightarrow> (nat \<Rightarrow> 'src \<Rightarrow> uint32 \<Rightarrow> bool) \<Rightarrow>
     (nat \<Rightarrow> 'src \<Rightarrow> uint32 \<Rightarrow> bool \<Rightarrow> bool \<Rightarrow> bool \<times> 'resp) \<Rightarrow> ('resp \<Rightarrow> bool) \<Rightarrow> 'resp \<Rightarrow> nat \<Rightarrow>
     uint32 \<Rightarrow> bool \<Rightarrow> bool \<Rightarrow> (fault + 'resp option) option" where
  "fetchLedger sources hasLedger sourceFetchLedger validated emptyResponse rnd
       ledgerSequence getObjects getObjectNeighbors =
     (case execute sources hasLedger rnd
             (\<lambda>t source response.
                let (statusOk, data) = sourceFetchLedger t source ledgerSequence getObjects getObjectNeighbors
                in (statusOk \<and> validated data, data))
             ledgerSequence emptyResponse
      of None \<Rightarrow> None
       | Some (Inl e) \<Rightarrow> Some (Inl e)
       | Some (Inr (success, response, log)) \<Rightarrow> Some (Inr (if success then Some response else None)))"

text \<open>
  \<open>forwardToRippled\<close>: at most \<open>sources_.size()\<close> attempts. The last component of the
  result lists the indices of the Sources the request was forwarded to, in order.
\<close>

function forwardToRippled_loop ::
  "'src list \<Rightarrow> (nat \<Rightarrow> 'src \<Rightarrow> 'req \<Rightarrow> string \<Rightarrow> 'json option) \<Rightarrow> 'req \<Rightarrow> string \<Rightarrow>
     nat \<Rightarrow> nat \<Rightarrow> nat list \<Rightarrow> 'json option \<times> nat list" where
  "forwardToRippled_loop sources forward req clientIp sourceIdx numAttempts tried =
     (if numAttempts < length sources then
        (case forward numAttempts (sources ! sourceIdx) req clientIp of
           Some res \<Rightarrow> (Some res, tried @ [sourceIdx])
         | None \<Rightarrow>
             forwardToRippled_loop sources forward req clientIp
               ((sourceIdx + 1) mod length sources) (numAttempts + 1) (tried @ [sourceIdx]))
      else (None, tried))"
  by pat_completeness auto
termination
  by (relation "measure (\<lambda>(sources, forward, req, clientIp, sourceIdx, numAttempts, tried).
        length sources - numAttempts)") auto

declare forwardToRippled_loop.simps [simp del]

definition forwardToRippled ::
  "'src list \<Rightarrow> (nat \<Rightarrow> 'src \<Rightarrow> 'req \<Rightarrow> string \<Rightarrow> 'json option) \<Rightarrow> nat \<Rightarrow> 'req \<Rightarrow> string \<Rightarrow>
     fault + 'json option \<times> nat list" where
  "forwardToRippled sources forward rnd req clientIp =
     (if length sources = 0 then Inl DivisionByZero
      else Inr (forwardToRippled_loop sources forward req clientIp (rnd mod length sources) 0 []))"

text \<open>
  \<open>shouldPropagateTxnStream\<close>: the range-for over \<open>sources_\<close> returns at the first
  connected Source. \<open>eq\<close> is \<open>Source::operator==\<close>, declared in etl/Source.h.
\<close>

fun shouldPropagateTxnStream ::
  "('src \<Rightarrow> bool) \<Rightarrow> ('src \<Rightarrow> 'src \<Rightarrow> bool) \<Rightarrow> 'src list \<Rightarrow> 'src \<Rightarrow> bool" where
  "shouldPropagateTxnStream isConnected eq [] inp = True"
| "shouldPropagateTxnStream isConnected eq (src # rest) inp =
     (if isConnected src then eq src inp
      else shouldPropagateTxnStream isConnected eq rest inp)"

subsection \<open>Reading the log of \<open>execute\<close> and the order of \<open>forwardToRippled\<close>\<close>

fun succeeded :: "event \<Rightarrow> bool" where
  "succeeded (WorkerOk i) = True"
| "succeeded e = False"

fun consulted :: "event \<Rightarrow> nat option" where
  "consulted (NotPresent i) = Some i"
| "consulted (WorkerFailed i) = Some i"
| "consulted (WorkerOk i) = Some i"
| "consulted Sleep2s = None"

definition consultations :: "event list \<Rightarrow> nat list" where
  "consultations log = List.map_filter consulted log"

text \<open>
  The round-robin order over a pool of \<open>n\<close> Sources from the index \<open>start\<close>, the answers
  the Sources give when asked in that order, and the first answer that is not empty.
\<close>

definition round_robin :: "nat \<Rightarrow> nat \<Rightarrow> nat list" where
  "round_robin n start = map (\<lambda>k. (start + k) mod n) [0..<n]"

definition forward_answers ::
  "'src list \<Rightarrow> (nat \<Rightarrow> 'src \<Rightarrow> 'req \<Rightarrow> string \<Rightarrow> 'json option) \<Rightarrow> 'req \<Rightarrow> string \<Rightarrow> nat \<Rightarrow>
     'json option list" where
  "forward_answers sources forward req clientIp start =
     map (\<lambda>k. forward k (sources ! ((start + k) mod length sources)) req clientIp)
       [0..<length sources]"

definition is_empty_answer :: "'json option \<Rightarrow> bool" where
  "is_empty_answer a = (a = None)"

definition first_answer :: "'json option list \<Rightarrow> 'json option" where
  "first_answer as = (case dropWhile is_empty_answer as of [] \<Rightarrow> None | a # _ \<Rightarrow> a)"

section \<open>util::Retry\<close>

text \<open>
  Retry.hpp declares the classes and defines \<open>Retry::retry\<close>; the other member
  functions are defined in Retry.cpp, which is not among the sources.
  A \<open>steady_clock::duration\<close> is a signed 64-bit count of clock ticks: a 64-bit word,
  read as a two's complement number by \<open>sint\<close>. Its arithmetic wraps around, as the
  machine arithmetic does where the signed overflow of C++ is undefined. Durations are
  compared as signed numbers, and \<open>std::min(a, b)\<close> is \<open>b\<close> when \<open>b < a\<close> and \<open>a\<close>
  otherwise.
\<close>

type_synonym duration = "64 word"

definition duration_min :: "duration \<Rightarrow> duration \<Rightarrow> duration" where
  "duration_min a b = (if sint b < sint a then b else a)"

text \<open>
  A number of milliseconds as a duration: the tick of \<open>steady_clock\<close> is a nanosecond.
\<close>

definition milliseconds :: "int \<Rightarrow> duration" where
  "milliseconds n = word_of_int (n * 1000000)"

text \<open>
  \<open>RetryStrategy\<close> with its two private members; the pure virtual \<open>nextDelay()\<close> is a
  function of the value \<open>getDelay()\<close> returns.
\<close>

record RetryStrategy =
  initialDelay :: duration
  delay :: duration
  nextDelay :: "duration \<Rightarrow> duration"

text \<open>
  Modelled from the spec: \<open>RetryStrategy::getDelay\<close> of Retry.cpp. It returns the
  current delay without advancing it.
\<close>

definition getDelay :: "RetryStrategy \<Rightarrow> duration" where
  "getDelay s = delay s"

text \<open>
  Modelled from the spec: \<open>RetryStrategy::increaseDelay\<close> of Retry.cpp, the separate,
  explicit mutation step: the current delay becomes the next computed delay.
\<close>

definition increaseDelay :: "RetryStrategy \<Rightarrow> RetryStrategy" where
  "increaseDelay s = s\<lparr>delay := nextDelay s (getDelay s)\<rparr>"

text \<open>
  Modelled from the spec: \<open>RetryStrategy::reset\<close> of Retry.cpp. The delay state goes back
  to its initial value.
\<close>

definition RetryStrategy_reset :: "RetryStrategy \<Rightarrow> RetryStrategy" where
  "RetryStrategy_reset s = s\<lparr>delay := initialDelay s\<rparr>"

text \<open>
  Modelled from the spec: the constructor of \<open>ExponentialBackoffStrategy\<close> and its
  \<open>nextDelay\<close> of Retry.cpp: the current delay starts at the initial delay, and the next
  delay is \<open>min(currentDelay * 2, maxDelay)\<close>. The spec describes no check of the two
  arguments; its invariant that the current delay is bounded above by the maximum holds
  from the construction on when the initial delay is not above \<open>maxDelay\<close>.
\<close>

definition ExponentialBackoffStrategy :: "duration \<Rightarrow> duration \<Rightarrow> RetryStrategy" where
  "ExponentialBackoffStrategy d maxDelay =
     \<lparr>initialDelay = d, delay = d, nextDelay = (\<lambda>current. duration_min (current * 2) maxDelay)\<rparr>"

text \<open>
  \<open>boost::asio::steady_timer\<close>, by the documentation of Boost.Asio. \<open>expires_after\<close> sets
  the expiry and cancels the pending waits; \<open>async_wait\<close> adds a pending wait; \<open>cancel\<close>
  completes the pending waits with \<open>operation_aborted\<close>; a timer that reaches its expiry
  completes them without error. A wait is the callable its handler captures, with the
  error code it completed with (\<open>None\<close> while it is pending); the handler of a completed
  wait runs later, on the strand.
\<close>

datatype error_code = no_error | operation_aborted | other_error nat

record 'cb steady_timer =
  expiry :: "duration option"
  waits :: "('cb \<times> error_code option) list"

definition complete_pending :: "error_code \<Rightarrow> ('cb \<times> error_code option) list \<Rightarrow> ('cb \<times> error_code option) list" where
  "complete_pending ec ws =
     map (\<lambda>(func, c). (func, case c of None \<Rightarrow> Some ec | Some done \<Rightarrow> Some done)) ws"

definition expires_after :: "duration \<Rightarrow> 'cb steady_timer \<Rightarrow> 'cb steady_timer" where
  "expires_after d t = t\<lparr>expiry := Some d, waits := complete_pending operation_aborted (waits t)\<rparr>"

definition async_wait :: "'cb \<Rightarrow> 'cb steady_timer \<Rightarrow> 'cb steady_timer" where
  "async_wait func t = t\<lparr>waits := waits t @ [(func, None)]\<rparr>"

definition timer_cancel :: "'cb steady_timer \<Rightarrow> 'cb steady_timer" where
  "timer_cancel t = t\<lparr>waits := complete_pending operation_aborted (waits t)\<rparr>"

definition timer_fire :: "'cb steady_timer \<Rightarrow> 'cb steady_timer" where
  "timer_fire t = t\<lparr>waits := complete_pending no_error (waits t)\<rparr>"

record 'cb Retry =
  strategy :: RetryStrategy
  timer :: "'cb steady_timer"
  attemptNumber :: size_t

text \<open>
  \<open>Retry::retry\<close>, as Retry.hpp defines it: arm the timer with the current delay,
  increase the delay, wait.
\<close>

definition retry :: "'cb \<Rightarrow> 'cb Retry \<Rightarrow> 'cb Retry" where
  "retry func r =
     (let t1 = expires_after (getDelay (strategy r)) (timer r);
          s1 = increaseDelay (strategy r);
          t2 = async_wait func t1
      in r\<lparr>strategy := s1, timer := t2\<rparr>)"

text \<open>
  The completion handler \<open>retry\<close> passes to \<open>async_wait\<close>. What the callable \<open>func\<close> does
  is outside the model: the handler returns the callables it invoked.
\<close>

definition wait_handler :: "'cb \<Rightarrow> error_code \<Rightarrow> 'cb Retry \<Rightarrow> 'cb Retry \<times> 'cb list" where
  "wait_handler func ec r =
     (if ec = operation_aborted then (r, [])
      else (r\<lparr>attemptNumber := attemptNumber r + 1\<rparr>, [func]))"

text \<open>
  The strand runs the handlers of the completed waits, oldest first, and the pending
  waits stay with the timer.
\<close>

fun run_handlers :: "('cb \<times> error_code option) list \<Rightarrow> 'cb Retry \<Rightarrow> 'cb Retry \<times> 'cb list" where
  "run_handlers [] r = (r, [])"
| "run_handlers ((func, None) # ws) r = run_handlers ws r"
| "run_handlers ((func, Some ec) # ws) r =
     (let (r', invoked) = wait_handler func ec r;
          (r'', invoked') = run_handlers ws r'
      in (r'', invoked @ invoked'))"

definition run_completed :: "'cb Retry \<Rightarrow> 'cb Retry \<times> 'cb list" where
  "run_completed r =
     run_handlers (waits (timer r))
       (r\<lparr>timer := (timer r)\<lparr>waits := filter (\<lambda>(func, c). c = None) (waits (timer r))\<rparr>\<rparr>)"

text \<open>
  Modelled from the spec: \<open>Retry::cancel\<close> of Retry.cpp cancels a pending timer if any.
\<close>

definition cancel :: "'cb Retry \<Rightarrow> 'cb Retry" where
  "cancel r = r\<lparr>timer := timer_cancel (timer r)\<rparr>"

text \<open>
  Modelled from the spec: \<open>Retry::reset\<close> of Retry.cpp resets both the delay state and
  the attempt counter to their initial values and does not cancel a pending timer.
\<close>

definition Retry_reset :: "'cb Retry \<Rightarrow> 'cb Retry" where
  "Retry_reset r = r\<lparr>strategy := RetryStrategy_reset (strategy r), attemptNumber := 0\<rparr>"

text \<open>
  Modelled from the spec: \<open>makeRetryExponentialBackoff\<close> of Retry.cpp binds an
  exponential strategy to a timer that was never armed; the attempt number starts at 0,
  as the member initialiser of Retry.hpp says.
\<close>

definition makeRetryExponentialBackoff :: "duration \<Rightarrow> duration \<Rightarrow> 'cb Retry" where
  "makeRetryExponentialBackoff d maxDelay =
     \<lparr>strategy = ExponentialBackoffStrategy d maxDelay,
      timer = \<lparr>expiry = None, waits = []\<rparr>,
      attemptNumber = 0\<rparr>"

text \<open>
  Consecutive calls of \<open>retry\<close>, one for each callable, with no handler run in between:
  the expiry the timer is armed with after each call, oldest first, and the final state.
\<close>

fun retries :: "'cb list \<Rightarrow> 'cb Retry \<Rightarrow> duration option list \<times> 'cb Retry" where
  "retries [] r = ([], r)"
| "retries (func # funcs) r =
     (let r' = retry func r;
          (armed, r'') = retries funcs r'
      in (expiry (timer r') # armed, r''))"

section \<open>Example values\<close>

text \<open>A guard with one whitelisted address, the limit of ten requests and no client seen.\<close>

definition guard0 :: DOSGuard where
  "guard0 = \<lparr>whitelistHandler = (\<lambda>ip. ip = ''127.0.0.1''), maxFetches = 1000000,
     maxConnCount = 20, maxRequestCount = 10, ipState = Map.empty, ipConnCount = Map.empty\<rparr>"

section \<open>Properties of the DOS guard\<close>

lemma isOk_rejects_iff:
  "\<not> whitelistHandler g ip \<Longrightarrow>
     (isOk g ip = False) =
       (transferedByte (state_at (ipState g) ip) > maxFetches g
        \<or> requestsCount (state_at (ipState g) ip) > maxRequestCount g
        \<or> count_at (ipConnCount g) ip > maxConnCount g)"
  by (auto simp: isOk_def state_at_def count_at_def split: option.splits)

lemma requests_whitelisted:
  "whitelistHandler g ip \<Longrightarrow> requests n g ip = (replicate n True, g)"
  by (induction n) (simp_all add: request_def)

lemma eleven_Suc: "(11::nat) = Suc (Suc (Suc (Suc (Suc (Suc (Suc (Suc (Suc (Suc (Suc 0))))))))))"
  by simp

lemma replicate_ten:
  "replicate 10 True = [True, True, True, True, True, True, True, True, True, True]"
  by (simp add: numeral_eq_Suc)

lemma requests_eleven:
  assumes "\<not> whitelistHandler g ip" "maxRequestCount g = 10" "ipState g ip = None"
    "count_at (ipConnCount g) ip \<le> maxConnCount g"
  shows "fst (requests 11 g ip) = replicate 10 True @ [False]"
proof -
  have le: "\<not> maxConnCount g < count_at (ipConnCount g) ip"
    using assms(4) by simp
  show ?thesis
    unfolding eleven_Suc replicate_ten
    using assms(1-3) le
    by (simp add: request_def isOk_def state_at_def count_at_def Let_def split: option.splits)
qed

text \<open>
  C3. A whitelisted ip is admitted by \<open>isOk\<close>, and any number of \<open>request\<close> calls for it
  return true and leave the guard, so its counters, as they were. For an ip that is not
  whitelisted \<open>isOk\<close> is false exactly when the transferred bytes exceed \<open>maxFetches_\<close>,
  or the request count exceeds \<open>maxRequestCount_\<close>, or the connection count exceeds
  \<open>maxConnCount_\<close>, a missing entry reading as zero. With the request limit 10, eleven
  consecutive \<open>request\<close> calls for an ip that is not whitelisted, has no entry in
  \<open>ipState_\<close> and is within the connection limit return true ten times, then false.
\<close>

theorem isOk_admission_gates:
  "(whitelistHandler g ip \<longrightarrow> isOk g ip \<and> requests n g ip = (replicate n True, g)) \<and>
   (\<not> whitelistHandler g ip \<longrightarrow>
      (isOk g ip = False) =
        (transferedByte (state_at (ipState g) ip) > maxFetches g
         \<or> requestsCount (state_at (ipState g) ip) > maxRequestCount g
         \<or> count_at (ipConnCount g) ip > maxConnCount g)) \<and>
   (\<not> whitelistHandler g ip \<and> maxRequestCount g = 10 \<and> ipState g ip = None
      \<and> count_at (ipConnCount g) ip \<le> maxConnCount g \<longrightarrow>
      fst (requests 11 g ip) = replicate 10 True @ [False])"
  using isOk_rejects_iff [of g ip] requests_whitelisted [of g ip n] requests_eleven [of g ip]
  by (simp add: isOk_def)

theorem isOk_admission_gates_witness:
  "whitelistHandler guard0 ''127.0.0.1'' \<and> isOk guard0 ''127.0.0.1'' \<and>
   requests 3 guard0 ''127.0.0.1'' = ([True, True, True], guard0) \<and>
   \<not> whitelistHandler guard0 ''10.0.0.7'' \<and> maxRequestCount guard0 = 10 \<and>
   ipState guard0 ''10.0.0.7'' = None \<and>
   fst (requests 11 guard0 ''10.0.0.7'') = replicate 10 True @ [False] \<and>
   \<not> isOk (guard0\<lparr>ipState := [''10.0.0.7'' \<mapsto> \<lparr>transferedByte = 1000001, requestsCount = 0\<rparr>]\<rparr>)
       ''10.0.0.7'' \<and>
   \<not> isOk (guard0\<lparr>ipConnCount := [''10.0.0.7'' \<mapsto> 21]\<rparr>) ''10.0.0.7''"
proof -
  let ?bytes = "guard0\<lparr>ipState := [''10.0.0.7'' \<mapsto> \<lparr>transferedByte = 1000001, requestsCount = 0\<rparr>]\<rparr>"
  let ?conns = "guard0\<lparr>ipConnCount := [''10.0.0.7'' \<mapsto> 21]\<rparr>"
  have w: "whitelistHandler guard0 ''127.0.0.1''"
    and nw: "\<not> whitelistHandler guard0 ''10.0.0.7''"
    and pre: "maxRequestCount guard0 = 10" "ipState guard0 ''10.0.0.7'' = None"
      "count_at (ipConnCount guard0) ''10.0.0.7'' \<le> maxConnCount guard0"
    by (simp_all add: guard0_def count_at_def)
  have a: "isOk guard0 ''127.0.0.1'' \<and> requests 3 guard0 ''127.0.0.1'' = (replicate 3 True, guard0)"
    using isOk_admission_gates [of guard0 "''127.0.0.1''" 3] w by blast
  have b: "fst (requests 11 guard0 ''10.0.0.7'') = replicate 10 True @ [False]"
    using isOk_admission_gates [of guard0 "''10.0.0.7''" 0] nw pre by blast
  have c: "\<not> isOk ?bytes ''10.0.0.7''"
    using isOk_admission_gates [of ?bytes "''10.0.0.7''" 0]
    by (simp add: guard0_def state_at_def)
  have d: "\<not> isOk ?conns ''10.0.0.7''"
    using isOk_admission_gates [of ?conns "''10.0.0.7''" 0]
    by (simp add: guard0_def count_at_def)
  show ?thesis
    using w nw pre(1,2) a b c d by (simp add: numeral_3_eq_3)
qed

lemma decrement_positive:
  assumes "\<not> whitelistHandler g ip" "count_at (ipConnCount g) ip > 0"
  shows "decrement g ip =
           Inr (g\<lparr>ipConnCount :=
                  (if count_at (ipConnCount g) ip = 1 then (ipConnCount g)(ip := None)
                   else (ipConnCount g)(ip \<mapsto> count_at (ipConnCount g) ip - 1))\<rparr>)"
  using assms by (auto simp: decrement_def ASSERT_def Let_def count_at_def)

lemma word_pred_no_wrap: "(c::uint32) > 0 \<Longrightarrow> unat (c - 1) + 1 = unat c"
proof -
  assume "c > 0"
  then have "c \<noteq> 0" by (simp add: word_gt_0)
  then have "unat (c - 1) = unat c - 1" "0 < unat c"
    by (simp_all add: unat_minus_one unat_gt_0)
  then show ?thesis by simp
qed

text \<open>
  C8. For a whitelisted ip \<open>increment\<close> and \<open>decrement\<close> change nothing. For an ip that
  is not whitelisted, \<open>decrement\<close> on a count that is zero or absent ends in the
  assertion failure; on a positive count it returns, only \<open>ipConnCount_\<close> changes, the
  entry of the ip is erased when the count was 1 and holds the count less one
  otherwise, and the count read afterwards is exactly one less, with no wrap-around.
\<close>

theorem decrement_connection_count:
  "(whitelistHandler g ip \<longrightarrow> increment g ip = g \<and> decrement g ip = Inr g) \<and>
   (\<not> whitelistHandler g ip \<and> count_at (ipConnCount g) ip = 0 \<longrightarrow>
      decrement g ip = Inl AssertionFailure) \<and>
   (\<not> whitelistHandler g ip \<and> count_at (ipConnCount g) ip > 0 \<longrightarrow>
      (\<exists>g'. decrement g ip = Inr g' \<and>
         g' = g\<lparr>ipConnCount := ipConnCount g'\<rparr> \<and>
         ipConnCount g' =
           (if count_at (ipConnCount g) ip = 1 then (ipConnCount g)(ip := None)
            else (ipConnCount g)(ip \<mapsto> count_at (ipConnCount g) ip - 1)) \<and>
         unat (count_at (ipConnCount g') ip) + 1 = unat (count_at (ipConnCount g) ip)))"
proof (intro conjI impI)
  assume "whitelistHandler g ip"
  then show "increment g ip = g" "decrement g ip = Inr g"
    by (simp_all add: increment_def decrement_def)
next
  assume "\<not> whitelistHandler g ip \<and> count_at (ipConnCount g) ip = 0"
  then show "decrement g ip = Inl AssertionFailure"
    by (simp add: decrement_def ASSERT_def)
next
  assume a: "\<not> whitelistHandler g ip \<and> 0 < count_at (ipConnCount g) ip"
  let ?c = "count_at (ipConnCount g) ip"
  let ?m = "if ?c = 1 then (ipConnCount g)(ip := None) else (ipConnCount g)(ip \<mapsto> ?c - 1)"
  have d: "decrement g ip = Inr (g\<lparr>ipConnCount := ?m\<rparr>)"
    using a decrement_positive by blast
  have "count_at ?m ip = ?c - 1"
    by (simp add: count_at_def)
  then have "unat (count_at ?m ip) + 1 = unat ?c"
    using a word_pred_no_wrap by simp
  with d show "\<exists>g'. decrement g ip = Inr g' \<and>
         g' = g\<lparr>ipConnCount := ipConnCount g'\<rparr> \<and>
         ipConnCount g' = ?m \<and>
         unat (count_at (ipConnCount g') ip) + 1 = unat ?c"
    by simp
qed

theorem decrement_connection_count_witness:
  "whitelistHandler guard0 ''127.0.0.1'' \<and>
   increment guard0 ''127.0.0.1'' = guard0 \<and> decrement guard0 ''127.0.0.1'' = Inr guard0 \<and>
   \<not> whitelistHandler guard0 ''10.0.0.7'' \<and> count_at (ipConnCount guard0) ''10.0.0.7'' = 0 \<and>
   decrement guard0 ''10.0.0.7'' = Inl AssertionFailure \<and>
   ipConnCount (increment guard0 ''10.0.0.7'') ''10.0.0.7'' = Some 1 \<and>
   decrement (increment guard0 ''10.0.0.7'') ''10.0.0.7'' = Inr guard0"
proof -
  have w: "whitelistHandler guard0 ''127.0.0.1''"
    and nw: "\<not> whitelistHandler guard0 ''10.0.0.7''"
    and z: "count_at (ipConnCount guard0) ''10.0.0.7'' = 0"
    by (simp_all add: guard0_def count_at_def)
  have a: "increment guard0 ''127.0.0.1'' = guard0 \<and> decrement guard0 ''127.0.0.1'' = Inr guard0"
    using decrement_connection_count [of guard0 "''127.0.0.1''"] w by blast
  have b: "decrement guard0 ''10.0.0.7'' = Inl AssertionFailure"
    using decrement_connection_count [of guard0 "''10.0.0.7''"] nw z by blast
  have i: "increment guard0 ''10.0.0.7'' = guard0\<lparr>ipConnCount := [''10.0.0.7'' \<mapsto> 1]\<rparr>"
    by (simp add: increment_def guard0_def count_at_def)
  have c: "decrement (increment guard0 ''10.0.0.7'') ''10.0.0.7'' = Inr guard0"
    using decrement_connection_count [of "increment guard0 ''10.0.0.7''" "''10.0.0.7''"]
    unfolding i by (auto simp: guard0_def count_at_def)
  show ?thesis
    using w nw z a b c by (simp add: i)
qed

text \<open>
  C9. \<open>clear\<close> empties \<open>ipState_\<close>, so every ip reads zero transferred bytes and zero
  requests afterwards, and leaves \<open>ipConnCount_\<close> and everything else as it was.
\<close>

theorem clear_counters:
  "ipState (clear g) = Map.empty \<and>
   state_at (ipState (clear g)) ip = \<lparr>transferedByte = 0, requestsCount = 0\<rparr> \<and>
   ipConnCount (clear g) = ipConnCount g \<and>
   clear g = g\<lparr>ipState := Map.empty\<rparr>"
  by (simp add: clear_def state_at_def)

section \<open>Properties of the load balancer\<close>

lemma find_first_of_filter: "filter P xs = s # rest \<Longrightarrow> find P xs = Some s"
  by (induction xs) (auto split: if_splits)

lemma find_None_filter: "filter P xs = [] \<Longrightarrow> find P xs = None"
  by (induction xs) (auto split: if_splits)

lemma shouldPropagateTxnStream_find:
  "shouldPropagateTxnStream isConnected eq sources cand =
     (case find isConnected sources of None \<Rightarrow> True | Some s \<Rightarrow> eq s cand)"
  by (induction sources) simp_all

lemma shouldPropagateTxnStream_cong:
  "map isConnected sources = map isConnected' sources \<Longrightarrow>
     shouldPropagateTxnStream isConnected' eq sources cand =
     shouldPropagateTxnStream isConnected eq sources cand"
  by (induction sources) simp_all

text \<open>
  C4. \<open>shouldPropagateTxnStream\<close> answers for a candidate what \<open>operator==\<close> says of the
  first connected Source of the pool, in the order of the pool, and the candidate, and
  answers true when no Source is connected. When exactly one Source \<open>s\<close> is connected
  the answer is whether \<open>s\<close> equals the candidate. The answer depends on the Sources
  only through their connectivity: with unchanged connectivity a second call gives the
  same answer.
\<close>

theorem shouldPropagateTxnStream_first_connected:
  "shouldPropagateTxnStream isConnected eq sources cand =
     (case find isConnected sources of None \<Rightarrow> True | Some s \<Rightarrow> eq s cand) \<and>
   (filter isConnected sources = [] \<longrightarrow> shouldPropagateTxnStream isConnected eq sources cand) \<and>
   (filter isConnected sources = [s] \<longrightarrow>
      shouldPropagateTxnStream isConnected eq sources cand = eq s cand) \<and>
   (map isConnected sources = map isConnected' sources \<longrightarrow>
      shouldPropagateTxnStream isConnected' eq sources cand =
      shouldPropagateTxnStream isConnected eq sources cand)"
  using shouldPropagateTxnStream_cong [of isConnected sources isConnected' eq cand]
  by (auto simp: shouldPropagateTxnStream_find find_first_of_filter find_None_filter)

theorem shouldPropagateTxnStream_first_connected_witness:
  "shouldPropagateTxnStream (\<lambda>s. s = ''b'') (=) [''a'', ''b'', ''c''] ''b'' \<and>
   \<not> shouldPropagateTxnStream (\<lambda>s. s = ''b'') (=) [''a'', ''b'', ''c''] ''a'' \<and>
   \<not> shouldPropagateTxnStream (\<lambda>s. s = ''b'') (=) [''a'', ''b'', ''c''] ''c'' \<and>
   shouldPropagateTxnStream (\<lambda>s. False) (=) [''a'', ''b'', ''c''] ''c'' \<and>
   shouldPropagateTxnStream (\<lambda>s. s \<noteq> ''a'' \<and> s \<noteq> ''c'') (=) [''a'', ''b'', ''c''] ''b''"
  using shouldPropagateTxnStream_first_connected
      [of "\<lambda>s. s = ''b''" "(=)" "[''a'', ''b'', ''c'']" "''b''" "''b''" "\<lambda>s. s \<noteq> ''a'' \<and> s \<noteq> ''c''"]
    shouldPropagateTxnStream_first_connected
      [of "\<lambda>s. s = ''b''" "(=)" "[''a'', ''b'', ''c'']" "''a''" "''b''" "\<lambda>s. s = ''b''"]
    shouldPropagateTxnStream_first_connected
      [of "\<lambda>s. s = ''b''" "(=)" "[''a'', ''b'', ''c'']" "''c''" "''b''" "\<lambda>s. s = ''b''"]
    shouldPropagateTxnStream_first_connected
      [of "\<lambda>s. False" "(=)" "[''a'', ''b'', ''c'']" "''c''" "''b''" "\<lambda>s. False"]
  by simp

lemma mod_shift_inj:
  fixes a b n start :: nat
  assumes "a < n" "b < n" "(start + a) mod n = (start + b) mod n" "a \<le> b"
  shows "a = b"
proof -
  have "(start + b) mod n = (start + a) mod n" "start + a \<le> start + b"
    using assms(3,4) by simp_all
  then have "n dvd (start + b) - (start + a)"
    using mod_eq_dvd_iff_nat by blast
  then have "n dvd b - a" by simp
  moreover have "b - a < n" using assms(2) by simp
  ultimately have "b - a = 0" using nat_dvd_not_less by blast
  with assms(4) show ?thesis by simp
qed

lemma round_robin_distinct: "distinct (round_robin n start)"
proof -
  have "inj_on (\<lambda>k. (start + k) mod n) {0..<n}"
  proof (rule inj_onI)
    fix a b assume a: "a \<in> {0..<n}" and b: "b \<in> {0..<n}"
      and e: "(start + a) mod n = (start + b) mod n"
    show "a = b"
    proof (cases "a \<le> b")
      case True
      with a b e show ?thesis using mod_shift_inj [of a n b start] by simp
    next
      case False
      with a b e show ?thesis using mod_shift_inj [of b n a start] by simp
    qed
  qed
  then show ?thesis
    by (simp add: round_robin_def distinct_map)
qed

lemma round_robin_set: "set (round_robin n start) \<subseteq> {0..<n}"
  by (auto simp: round_robin_def)

lemma forwardToRippled_loop_spec:
  assumes n: "n = length sources" "0 < n"
  shows "k \<le> n \<Longrightarrow>
    forwardToRippled_loop sources forward req clientIp ((start + k) mod n) k tried =
      (first_answer (map (\<lambda>j. forward j (sources ! ((start + j) mod n)) req clientIp) [k..<n]),
       tried @ take (Suc (length (takeWhile is_empty_answer
                 (map (\<lambda>j. forward j (sources ! ((start + j) mod n)) req clientIp) [k..<n]))))
               (map (\<lambda>j. (start + j) mod n) [k..<n]))"
proof (induction "n - k" arbitrary: k tried)
  case 0
  then have "k = n" by simp
  then show ?case
    by (subst forwardToRippled_loop.simps) (simp add: n(1) first_answer_def)
next
  case (Suc d)
  then have k: "k < n" "Suc k \<le> n" "d = n - Suc k" by simp_all
  have up: "[k..<length sources] = k # [Suc k..<length sources]"
    using k n by (simp add: upt_conv_Cons)
  have idx: "((start + k) mod n + 1) mod n = (start + Suc k) mod n"
    by (simp add: mod_Suc_eq)
  show ?case
  proof (cases "forward k (sources ! ((start + k) mod n)) req clientIp")
    case None
    show ?thesis
      apply (subst forwardToRippled_loop.simps)
      using None k n idx Suc.hyps(1) [OF k(3) k(2), of "tried @ [(start + k) mod n]"]
      by (simp add: up first_answer_def is_empty_answer_def)
  next
    case (Some a)
    show ?thesis
      apply (subst forwardToRippled_loop.simps)
      using Some k n
      by (simp add: up first_answer_def is_empty_answer_def)
  qed
qed


text \<open>
  C5. On a pool that is not empty \<open>forwardToRippled\<close> returns the first answer that is
  not empty among the answers of the Sources taken in round-robin order from the index
  \<open>rand() % sources_.size()\<close>, and no answer when all are empty. The Sources it
  forwarded to are the beginning of that order up to and including the first Source
  with an answer; the order lists every index of the pool once, so no Source is tried
  twice. The function reads nothing of a Source but its answer.
\<close>

theorem forwardToRippled_single_pass:
  assumes "sources \<noteq> []"
  shows "forwardToRippled sources forward rnd req clientIp =
           Inr (first_answer (forward_answers sources forward req clientIp (rnd mod length sources)),
                take (Suc (length (takeWhile is_empty_answer
                        (forward_answers sources forward req clientIp (rnd mod length sources)))))
                  (round_robin (length sources) (rnd mod length sources))) \<and>
         distinct (round_robin (length sources) (rnd mod length sources)) \<and>
         length (round_robin (length sources) (rnd mod length sources)) = length sources \<and>
         set (round_robin (length sources) (rnd mod length sources)) \<subseteq> {0..<length sources}"
proof -
  have n: "0 < length sources" using assms by simp
  have "forwardToRippled_loop sources forward req clientIp
          ((rnd mod length sources + 0) mod length sources) 0 [] =
        (first_answer (forward_answers sources forward req clientIp (rnd mod length sources)),
         [] @ take (Suc (length (takeWhile is_empty_answer
                 (forward_answers sources forward req clientIp (rnd mod length sources)))))
           (round_robin (length sources) (rnd mod length sources)))"
    unfolding forward_answers_def round_robin_def
    by (rule forwardToRippled_loop_spec [OF refl n]) simp
  then show ?thesis
    using assms round_robin_distinct round_robin_set
    by (simp add: forwardToRippled_def round_robin_def)
qed

theorem forwardToRippled_single_pass_witness:
  "forwardToRippled [''a'', ''b'', ''c''] (\<lambda>k s q ip. if s = ''a'' then Some (q @ s) else None)
      5 ''ping'' ''10.0.0.7'' = Inr (Some ''pinga'', [2, 0]) \<and>
   forwardToRippled [''a'', ''b'', ''c''] (\<lambda>k s q ip. (None :: string option))
      5 ''ping'' ''10.0.0.7'' = Inr (None, [2, 0, 1])"
  using forwardToRippled_single_pass
      [of "[''a'', ''b'', ''c'']" "\<lambda>k s q ip. if s = ''a'' then Some (q @ s) else None" 5 "''ping''" "''10.0.0.7''"]
    forwardToRippled_single_pass
      [of "[''a'', ''b'', ''c'']" "\<lambda>k s q ip. (None :: string option)" 5 "''ping''" "''10.0.0.7''"]
  by (simp add: forward_answers_def round_robin_def first_answer_def is_empty_answer_def upt_rec)

subsection \<open>The loop of \<open>execute\<close>\<close>

lemma attempt_cases:
  assumes "attempt hasLedger f seq k s i st = (res, st', ev)"
  shows "(res \<and> ev = WorkerOk i) \<or> (\<not> res \<and> (ev = WorkerFailed i \<or> ev = NotPresent i))"
  using assms by (auto simp: attempt_def split: if_splits prod.splits)

lemma attempt_success:
  assumes "hasLedger k s seq" "\<forall>st. fst (f k s st)"
  shows "\<exists>st'. attempt hasLedger f seq k s i st = (True, st', WorkerOk i)"
  using assms by (auto simp: attempt_def split: prod.splits) (metis fst_conv)

lemma execute_loop_success:
  assumes ne: "sources \<noteq> []"
    and h: "hasLedger t (sources ! ((rnd + t) mod length sources)) seq"
    and w: "\<forall>st. fst (f t (sources ! ((rnd + t) mod length sources)) st)"
  shows "k \<le> t \<Longrightarrow>
    \<exists>st' pre i. execute_loop sources hasLedger f seq ((rnd + k) mod length sources) k st log
               = Some (True, st', log @ pre @ [WorkerOk i])
             \<and> \<not> list_ex succeeded pre \<and> length (consultations pre) \<le> t - k \<and> i < length sources"
proof (induction "t - k" arbitrary: k st log)
  case 0
  then have kt: "k = t" by simp
  obtain st' where a:
    "attempt hasLedger f seq t (sources ! ((rnd + t) mod length sources)) ((rnd + t) mod length sources) st
      = (True, st', WorkerOk ((rnd + t) mod length sources))"
    using attempt_success [of hasLedger t "sources ! ((rnd + t) mod length sources)" seq f
        "(rnd + t) mod length sources" st] h w by blast
  show ?case
    unfolding kt
    apply (subst execute_loop.simps)
    using a ne by (auto simp: consultations_def intro!: exI [of _ "[]"])
next
  case (Suc d)
  then have k: "Suc k \<le> t" "d = t - Suc k" by simp_all
  let ?i = "(rnd + k) mod length sources"
  obtain res st1 ev where a: "attempt hasLedger f seq k (sources ! ?i) ?i st = (res, st1, ev)"
    by (cases "attempt hasLedger f seq k (sources ! ?i) ?i st") auto
  show ?case
  proof (cases res)
    case True
    with attempt_cases [OF a] have "ev = WorkerOk ?i" by simp
    with a True ne show ?thesis
      apply (subst execute_loop.simps)
      by (auto simp: consultations_def intro!: exI [of _ "[]"])
  next
    case False
    with attempt_cases [OF a] have ev: "ev = WorkerFailed ?i \<or> ev = NotPresent ?i" by simp
    let ?sl = "if (k + 1) mod length sources = 0 then [Sleep2s] else []"
    have idx: "(?i + 1) mod length sources = (rnd + Suc k) mod length sources"
      by (simp add: mod_Suc_eq)
    obtain st' pre i where r:
      "execute_loop sources hasLedger f seq ((rnd + Suc k) mod length sources) (Suc k) st1 (log @ [ev] @ ?sl)
         = Some (True, st', (log @ [ev] @ ?sl) @ pre @ [WorkerOk i])"
      "\<not> list_ex succeeded pre" "length (consultations pre) \<le> t - Suc k" "i < length sources"
      using Suc.hyps(1) [OF k(2) k(1), of st1 "log @ [ev] @ ?sl"] by blast
    have "execute_loop sources hasLedger f seq ?i k st log
            = Some (True, st', log @ ([ev] @ ?sl @ pre) @ [WorkerOk i])"
      apply (subst execute_loop.simps)
      using a False r(1) idx by simp
    moreover have "\<not> list_ex succeeded ([ev] @ ?sl @ pre)"
      using ev r(2) by auto
    moreover have "length (consultations ([ev] @ ?sl @ pre)) \<le> t - k"
      using ev r(3) k by (auto simp: consultations_def List.map_filter_simps)
    ultimately show ?thesis using r(4) by blast
  qed
qed

lemma execute_success_at:
  assumes "sources \<noteq> []"
    and "hasLedger t (sources ! ((rnd + t) mod length sources)) ledgerSequence"
    and "\<forall>st. fst (f t (sources ! ((rnd + t) mod length sources)) st)"
  shows "\<exists>st' pre i. execute sources hasLedger rnd f ledgerSequence st
             = Some (Inr (True, st', pre @ [WorkerOk i]))
           \<and> \<not> list_ex succeeded pre \<and> length (consultations pre) \<le> t \<and> i < length sources"
  using execute_loop_success [where sources = sources and hasLedger = hasLedger and t = t
      and rnd = rnd and seq = ledgerSequence and f = f and k = 0 and st = st and log = "[]"] assms
  by (auto simp: execute_def)

text \<open>
  A Source that has the ledger, and on which the worker succeeds, from some time \<open>T\<close>
  on is reached by the round-robin within one pass after \<open>T\<close>.
\<close>

lemma execute_terminates_eventually_available:
  assumes "i < length sources"
    and "\<forall>t\<ge>T. hasLedger t (sources ! i) ledgerSequence \<and> (\<forall>st. fst (f t (sources ! i) st))"
  shows "\<exists>st' pre j. execute sources hasLedger rnd f ledgerSequence st
             = Some (Inr (True, st', pre @ [WorkerOk j]))
           \<and> \<not> list_ex succeeded pre \<and> length (consultations pre) < T + length sources"
proof -
  let ?n = "length sources"
  let ?r = "(rnd + T) mod ?n"
  let ?d = "(i + ?n - ?r) mod ?n"
  have n: "0 < ?n" using assms(1) by auto
  then have r: "?r < ?n" by simp
  have "(rnd + (T + ?d)) mod ?n = (?r + ?d) mod ?n"
    by (metis add.assoc mod_add_left_eq)
  also have "\<dots> = (?r + (i + ?n - ?r)) mod ?n"
    by (simp add: mod_add_right_eq)
  also have "\<dots> = i"
    using r assms(1) by simp
  finally have idx: "(rnd + (T + ?d)) mod ?n = i" .
  have d: "?d < ?n" using n by simp
  have ne: "sources \<noteq> []" using assms(1) by auto
  have h: "hasLedger (T + ?d) (sources ! ((rnd + (T + ?d)) mod ?n)) ledgerSequence"
    and w: "\<forall>st. fst (f (T + ?d) (sources ! ((rnd + (T + ?d)) mod ?n)) st)"
    using assms(2) idx by simp_all
  obtain st' pre j where
    "execute sources hasLedger rnd f ledgerSequence st = Some (Inr (True, st', pre @ [WorkerOk j]))"
    "\<not> list_ex succeeded pre" "length (consultations pre) \<le> T + ?d"
    using execute_success_at
      [where sources = sources and hasLedger = hasLedger and t = "T + ?d"
        and rnd = rnd and ledgerSequence = ledgerSequence and f = f and st = st] ne h w
    by blast
  then show ?thesis using d by (intro exI [of _ st'] exI [of _ pre] exI [of _ j]) simp
qed

text \<open>
  C2. Let the pool be not empty, and let \<open>t\<close> be an attempt at which the Source the
  loop visits then, the one at the index \<open>(rand() + t) % sources_.size()\<close>, reports the
  ledger and the worker succeeds on it, whatever the variables it captures hold. Then
  \<open>execute\<close> terminates and returns true. The log of the call ends with the success
  of the worker and holds no success before it, so no Source is consulted after the
  first success; at most \<open>t\<close> consultations come before it.
\<close>

theorem execute_terminates_on_first_success:
  assumes "sources \<noteq> []"
    and "hasLedger t (sources ! ((rnd + t) mod length sources)) ledgerSequence"
    and "\<forall>st. fst (f t (sources ! ((rnd + t) mod length sources)) st)"
  shows "\<exists>st' pre i. execute sources hasLedger rnd f ledgerSequence st
             = Some (Inr (True, st', pre @ [WorkerOk i]))
           \<and> \<not> list_ex succeeded pre \<and> length (consultations pre) \<le> t \<and> i < length sources"
  using execute_loop_success [where sources = sources and hasLedger = hasLedger and t = t
      and rnd = rnd and seq = ledgerSequence and f = f and k = 0 and st = st and log = "[]"] assms
  by (auto simp: execute_def)

theorem execute_terminates_on_first_success_witness:
  "execute [''s0'', ''s1'', ''s2''] (\<lambda>t s q. s = ''s1'' \<and> 4 < t) 7 (\<lambda>t s st. (True, s # st)) 100 []
     = Some (Inr (True, [''s1''],
         [NotPresent 1, NotPresent 2, NotPresent 0, Sleep2s,
          NotPresent 1, NotPresent 2, NotPresent 0, Sleep2s] @ [WorkerOk 1])) \<and>
   (\<exists>st' pre i.
      execute [''s0'', ''s1'', ''s2''] (\<lambda>t s q. s = ''s1'' \<and> 4 < t) 7 (\<lambda>t s st. (True, s # st)) 100 []
        = Some (Inr (True, st', pre @ [WorkerOk i]))
      \<and> \<not> list_ex succeeded pre \<and> length (consultations pre) \<le> 6 \<and> i < 3)"
proof -
  have e: "execute [''s0'', ''s1'', ''s2''] (\<lambda>t s q. s = ''s1'' \<and> 4 < t) 7 (\<lambda>t s st. (True, s # st)) 100 []
     = Some (Inr (True, [''s1''],
         [NotPresent 1, NotPresent 2, NotPresent 0, Sleep2s,
          NotPresent 1, NotPresent 2, NotPresent 0, Sleep2s] @ [WorkerOk 1]))"
    by code_simp
  show ?thesis
    using e execute_terminates_on_first_success
      [where sources = "[''s0'', ''s1'', ''s2'']" and hasLedger = "\<lambda>t s q. s = ''s1'' \<and> 4 < t"
         and t = 6 and rnd = 7 and ledgerSequence = 100 and f = "\<lambda>t s st. (True, s # st)" and st = "[]"]
    by simp
qed

text \<open>
  C1. On an empty pool \<open>execute\<close>, and with it \<open>fetchLedger\<close> and \<open>loadInitialLedger\<close>,
  ends in the remainder by zero of the starting index, before the loop is entered.
  Nothing in the code checks the pool first or raises a defined error.
\<close>

theorem execute_empty_pool:
  "execute [] hasLedger rnd f ledgerSequence st = Some (Inl DivisionByZero) \<and>
   fetchLedger [] hasLedger sourceFetchLedger validated emptyResponse rnd
     ledgerSequence getObjects getObjectNeighbors = Some (Inl DivisionByZero) \<and>
   loadInitialLedger [] hasLedger sourceLoadInitialLedger downloadRanges rnd ledgerSequence cacheOnly
     = Some (Inl DivisionByZero)"
  by (simp add: execute_def fetchLedger_def loadInitialLedger_def)

lemma execute_loop_true:
  assumes "execute_loop sources hasLedger f seq i k st log = Some y"
  shows "fst y"
  by (rule execute_loop.raw_induct [where P = "\<lambda>_ _ _ _ _ _ _ _ y. fst y", OF _ assms])
    (auto split: prod.splits if_splits)

lemma execute_true:
  "execute sources hasLedger rnd f ledgerSequence st = Some (Inr (b, st', log)) \<Longrightarrow> b"
  by (auto simp: execute_def split: if_splits dest: execute_loop_true)

text \<open>
  C10. Whenever \<open>execute\<close> returns, its result is true. So whenever
  \<open>loadInitialLedger\<close> returns, its success flag is true, and whenever \<open>fetchLedger\<close>
  returns, its result is not the empty one.
\<close>

theorem execute_result_always_true:
  "(execute sources hasLedger rnd f ledgerSequence st = Some (Inr (b, st', log)) \<longrightarrow> b) \<and>
   (loadInitialLedger sources hasLedger sourceLoadInitialLedger downloadRanges rnd ledgerSequence cacheOnly
      = Some (Inr (response, success)) \<longrightarrow> success) \<and>
   (fetchLedger sources hasLedger sourceFetchLedger validated emptyResponse rnd
      ledgerSequence getObjects getObjectNeighbors = Some (Inr result) \<longrightarrow> result \<noteq> None)"
  by (auto simp: loadInitialLedger_def fetchLedger_def split: option.splits sum.splits if_splits
      dest: execute_true)

theorem execute_result_always_true_witness:
  "execute [''s0'', ''s1''] (\<lambda>t s q. True) 4 (\<lambda>t s st. (s = ''s1'', s # st)) 7 []
     = Some (Inr (True, [''s1'', ''s0''], [WorkerFailed 0, WorkerOk 1])) \<and>
   loadInitialLedger [''s0'', ''s1''] (\<lambda>t s q. True)
       (\<lambda>t s q n c. if s = ''s1'' then ([''object''], True) else ([], False)) 4 4 7 False
     = Some (Inr ([''object''], True)) \<and>
   fetchLedger [''s0'', ''s1''] (\<lambda>t s q. True)
       (\<lambda>t s q a b. (s = ''s1'', ''ledger from '' @ s)) (\<lambda>r. True) [] 4 7 False False
     = Some (Inr (Some ''ledger from s1''))"
proof -
  have e: "execute [''s0'', ''s1''] (\<lambda>t s q. True) 4 (\<lambda>t s st. (s = ''s1'', s # st)) 7 []
     = Some (Inr (True, [''s1'', ''s0''], [WorkerFailed 0, WorkerOk 1]))"
    by code_simp
  have l: "loadInitialLedger [''s0'', ''s1''] (\<lambda>t s q. True)
       (\<lambda>t s q n c. if s = ''s1'' then ([''object''], True) else ([], False)) 4 4 7 False
     = Some (Inr ([''object''], True))"
    by code_simp
  have f: "fetchLedger [''s0'', ''s1''] (\<lambda>t s q. True)
       (\<lambda>t s q a b. (s = ''s1'', ''ledger from '' @ s)) (\<lambda>r. True) [] 4 7 False False
     = Some (Inr (Some ''ledger from s1''))"
    by code_simp
  show ?thesis
    using e l f execute_result_always_true
      [where sources = "[''s0'', ''s1'']" and hasLedger = "\<lambda>t s q. True" and rnd = 4
         and f = "\<lambda>t s st. (s = ''s1'', s # st)" and ledgerSequence = 7 and st = "[]"
         and b = True and st' = "[''s1'', ''s0'']" and log = "[WorkerFailed 0, WorkerOk 1]"]
    by simp
qed

section \<open>Properties of Retry\<close>

lemma retry_effect:
  "expiry (timer (retry func r)) = Some (getDelay (strategy r)) \<and>
   strategy (retry func r) = increaseDelay (strategy r) \<and>
   attemptNumber (retry func r) = attemptNumber r \<and>
   waits (timer (retry func r)) = complete_pending operation_aborted (waits (timer r)) @ [(func, None)]"
  by (simp add: retry_def Let_def expires_after_def async_wait_def)

lemma retries_Cons:
  "fst (retries (func # funcs) r) = expiry (timer (retry func r)) # fst (retries funcs (retry func r))"
  "snd (retries (func # funcs) r) = snd (retries funcs (retry func r))"
  by (simp_all add: Let_def case_prod_beta)

lemma exp_step:
  fixes d m :: int
  assumes "0 \<le> d" "d \<le> m"
  shows "min (min (d * 2) m * 2 ^ j) m = min (d * 2 ^ Suc j) m"
proof (cases "d * 2 \<le> m")
  case True
  then show ?thesis by (simp add: min_def mult.assoc)
next
  case False
  then have a: "min (d * 2) m = m" by simp
  have p: "(1::int) \<le> 2 ^ j" by simp
  have "m * 1 \<le> m * 2 ^ j" using assms p by (intro mult_left_mono) simp_all
  then have b: "min (m * 2 ^ j) m = m" by simp
  have "m \<le> d * 2" using False by simp
  also have "\<dots> * 1 \<le> (d * 2) * 2 ^ j" using assms p by (intro mult_left_mono) simp_all
  finally have "min (d * 2 ^ Suc j) m = m" by (simp add: mult.assoc)
  with a b show ?thesis by simp
qed

lemma sint_double:
  fixes c :: duration
  assumes "0 \<le> sint c" "sint c < 2 ^ 62"
  shows "sint (c * 2) = sint c * 2"
proof -
  have "sint (c * 2) = signed_take_bit 63 (sint c * 2)"
    by (simp add: sint_word_ariths)
  also have "\<dots> = sint c * 2"
    using assms by (intro signed_take_bit_int_eq_self) simp_all
  finally show ?thesis .
qed

lemma sint_duration_min: "sint (duration_min a b) = min (sint a) (sint b)"
  by (simp add: duration_min_def min_def)

lemma retries_exponential:
  assumes "nextDelay (strategy r) = (\<lambda>current. duration_min (current * 2) m)"
    and "0 \<le> sint (delay (strategy r))" "sint (delay (strategy r)) \<le> sint m" "sint m < 2 ^ 62"
  shows "map (map_option sint) (fst (retries funcs r))
           = map (\<lambda>j. Some (min (sint (delay (strategy r)) * 2 ^ j) (sint m))) [0..<length funcs]"
  using assms
proof (induction funcs arbitrary: r)
  case Nil
  then show ?case by simp
next
  case (Cons func funcs)
  let ?r = "retry func r"
  let ?c = "delay (strategy r)"
  have s: "strategy ?r = increaseDelay (strategy r)" using retry_effect [of func r] by simp
  have n: "nextDelay (strategy ?r) = (\<lambda>current. duration_min (current * 2) m)"
    using Cons.prems(1) by (simp add: s increaseDelay_def)
  have dbl: "sint (?c * 2) = sint ?c * 2"
    using Cons.prems(2,3,4) by (intro sint_double) simp_all
  have d: "sint (delay (strategy ?r)) = min (sint ?c * 2) (sint m)"
    using Cons.prems(1) by (simp add: s increaseDelay_def getDelay_def sint_duration_min dbl)
  have b: "0 \<le> sint (delay (strategy ?r))" "sint (delay (strategy ?r)) \<le> sint m"
    using Cons.prems(2,3) by (simp_all add: d)
  have ih: "map (map_option sint) (fst (retries funcs ?r))
      = map (\<lambda>j. Some (min (sint ?c * 2 ^ Suc j) (sint m))) [0..<length funcs]"
    using Cons.IH [OF n b Cons.prems(4)] Cons.prems(2,3) by (simp add: d exp_step del: power_Suc)
  have e: "expiry (timer ?r) = Some ?c"
    using retry_effect [of func r] by (simp add: getDelay_def)
  have m0: "min (sint ?c) (sint m) = sint ?c" using Cons.prems(3) by simp
  show ?case
    using ih e m0 by (simp add: retries_Cons map_upt_Suc del: upt_Suc power_Suc retries.simps)
qed

lemma retries_initialDelay:
  "initialDelay (strategy (snd (retries funcs r))) = initialDelay (strategy r)"
proof (induction funcs arbitrary: r)
  case Nil show ?case by simp
next
  case (Cons func funcs)
  have "initialDelay (strategy (retry func r)) = initialDelay (strategy r)"
    by (simp add: retry_def Let_def increaseDelay_def)
  with Cons.IH [of "retry func r"] show ?case by (simp add: retries_Cons del: retries.simps)
qed

lemma exp_sorted:
  fixes d m :: int
  assumes "0 \<le> d"
  shows "sorted (map (\<lambda>j. min (d * 2 ^ j) m) [0..<n])"
proof -
  have "\<And>i j::nat. i \<le> j \<Longrightarrow> min (d * 2 ^ i) m \<le> min (d * 2 ^ j) m"
  proof -
    fix i j :: nat assume "i \<le> j"
    then have "(2::int) ^ i \<le> 2 ^ j" by (simp add: power_increasing)
    then have "d * 2 ^ i \<le> d * 2 ^ j" using assms by (rule mult_left_mono)
    then show "min (d * 2 ^ i) m \<le> min (d * 2 ^ j) m" by (simp add: min_le_iff_disj)
  qed
  then show ?thesis
    by (simp add: sorted_map sorted_wrt_iff_nth_less)
qed

text \<open>
  C6 as stated fails, also where the current delay stays within the maximum. With the
  initial delay of \<open>5 * 10^18\<close> ticks and the maximum of \<open>9 * 10^18\<close> ticks the doubling
  overflows the 64-bit count: the timer is armed with \<open>5 * 10^18\<close> ticks, then with a
  negative delay. With the initial delay of -100 ms and the maximum of 1600 ms it is
  armed with -100 ms, then with -200 ms. In both cases the armed delays decrease.
\<close>

theorem retry_delays_counterexample:
  "sint (5000000000000000000 :: duration) \<le> sint (9000000000000000000 :: duration) \<and>
   map (map_option sint)
     (fst (retries [(), ()] (makeRetryExponentialBackoff 5000000000000000000 9000000000000000000)))
     = [Some 5000000000000000000, Some (- 8446744073709551616)] \<and>
   \<not> sorted [5000000000000000000, - 8446744073709551616 :: int] \<and>
   sint (milliseconds (- 100)) \<le> sint (milliseconds 1600) \<and>
   map (map_option sint)
     (fst (retries [(), ()] (makeRetryExponentialBackoff (milliseconds (- 100)) (milliseconds 1600))))
     = [Some (- 100000000), Some (- 200000000)] \<and>
   \<not> sorted [- 100000000, - 200000000 :: int]"
  by (simp add: makeRetryExponentialBackoff_def ExponentialBackoffStrategy_def retry_def Let_def
      expires_after_def async_wait_def getDelay_def increaseDelay_def milliseconds_def duration_min_def)

text \<open>
  C6, amended. A call of \<open>retry\<close> arms the timer with the current delay of the strategy
  and advances the delay at once, while the wait it registered is still pending and the
  attempt number is unchanged. For the exponential strategy whose initial delay is not
  negative and not above \<open>maxDelay\<close>, as the invariant of the spec has it, and whose
  \<open>maxDelay\<close> is below \<open>2^62\<close> ticks, so that no doubling overflows, consecutive calls
  arm the delays \<open>min (initialDelay * 2^j) maxDelay\<close> for \<open>j = 0, 1, ...\<close>, which never
  decrease, with no handler run in between. With 100 ms and 1600 ms the armed delays are
  100, 200, 400, 800, 1600, 1600, 1600 ms, and after any number of calls \<open>reset\<close>
  restores the delay to 100 ms. \<open>reset\<close> restores the delay to the initial delay and
  sets the attempt number to 0.
\<close>

theorem retry_arms_then_advances:
  "expiry (timer (retry func r)) = Some (getDelay (strategy r)) \<and>
   strategy (retry func r) = increaseDelay (strategy r) \<and>
   attemptNumber (retry func r) = attemptNumber r \<and>
   last (waits (timer (retry func r))) = (func, None) \<and>
   (0 \<le> sint d \<and> sint d \<le> sint maxDelay \<and> sint maxDelay < 2 ^ 62 \<longrightarrow>
      map (map_option sint) (fst (retries funcs (makeRetryExponentialBackoff d maxDelay)))
        = map (\<lambda>j. Some (min (sint d * 2 ^ j) (sint maxDelay))) [0..<length funcs] \<and>
      sorted (map (\<lambda>j. min (sint d * 2 ^ j) (sint maxDelay)) [0..<length funcs])) \<and>
   fst (retries [fa, fb, fc, fd, fe, ff, fg]
          (makeRetryExponentialBackoff (milliseconds 100) (milliseconds 1600)))
     = map (\<lambda>n. Some (milliseconds n)) [100, 200, 400, 800, 1600, 1600, 1600] \<and>
   getDelay (strategy (Retry_reset (snd (retries funcs
       (makeRetryExponentialBackoff (milliseconds 100) (milliseconds 1600)))))) = milliseconds 100 \<and>
   getDelay (strategy (Retry_reset r)) = initialDelay (strategy r) \<and>
   attemptNumber (Retry_reset r) = 0"
proof -
  have a: "fst (retries [fa, fb, fc, fd, fe, ff, fg]
          (makeRetryExponentialBackoff (milliseconds 100) (milliseconds 1600)))
     = map (\<lambda>n. Some (milliseconds n)) [100, 200, 400, 800, 1600, 1600, 1600]"
    by (simp add: makeRetryExponentialBackoff_def ExponentialBackoffStrategy_def retry_def Let_def
      expires_after_def async_wait_def getDelay_def increaseDelay_def milliseconds_def duration_min_def)
  have b: "0 \<le> sint d \<and> sint d \<le> sint maxDelay \<and> sint maxDelay < 2 ^ 62 \<longrightarrow>
      map (map_option sint) (fst (retries funcs (makeRetryExponentialBackoff d maxDelay)))
        = map (\<lambda>j. Some (min (sint d * 2 ^ j) (sint maxDelay))) [0..<length funcs]"
    using retries_exponential [of "makeRetryExponentialBackoff d maxDelay" maxDelay funcs]
    by (simp add: makeRetryExponentialBackoff_def ExponentialBackoffStrategy_def)
  have c: "getDelay (strategy (Retry_reset (snd (retries funcs
       (makeRetryExponentialBackoff (milliseconds 100) (milliseconds 1600)))))) = milliseconds 100"
    using retries_initialDelay [of funcs "makeRetryExponentialBackoff (milliseconds 100) (milliseconds 1600)"]
    by (simp add: Retry_reset_def RetryStrategy_reset_def getDelay_def
        makeRetryExponentialBackoff_def ExponentialBackoffStrategy_def)
  show ?thesis
    using a b c retry_effect [of func r]
      exp_sorted [where d = "sint d" and n = "length funcs" and m = "sint maxDelay"]
    by (simp add: Retry_reset_def RetryStrategy_reset_def getDelay_def)
qed

theorem retry_arms_then_advances_witness:
  "0 \<le> sint (milliseconds 100) \<and> sint (milliseconds 100) \<le> sint (milliseconds 1600) \<and>
   sint (milliseconds 1600) < 2 ^ 62 \<and>
   map (map_option sint)
     (fst (retries [''a'', ''b'', ''c''] (makeRetryExponentialBackoff (milliseconds 100) (milliseconds 1600))))
     = [Some 100000000, Some 200000000, Some 400000000] \<and>
   sorted [100000000, 200000000, 400000000 :: int]"
proof -
  have h: "0 \<le> sint (milliseconds 100) \<and> sint (milliseconds 100) \<le> sint (milliseconds 1600) \<and>
      sint (milliseconds 1600) < 2 ^ 62"
    by (simp add: milliseconds_def)
  have three: "[0..<length [''a'', ''b'', ''c'']] = [0, 1, 2]"
    by (simp add: upt_rec)
  have "map (map_option sint)
      (fst (retries [''a'', ''b'', ''c''] (makeRetryExponentialBackoff (milliseconds 100) (milliseconds 1600))))
      = map (\<lambda>j. Some (min (sint (milliseconds 100) * 2 ^ j) (sint (milliseconds 1600))))
          [0..<length [''a'', ''b'', ''c'']]"
    using h retry_arms_then_advances
      [where d = "milliseconds 100" and maxDelay = "milliseconds 1600" and funcs = "[''a'', ''b'', ''c'']"
         and func = "''a''" and r = "makeRetryExponentialBackoff (milliseconds 100) (milliseconds 1600)"
         and fa = "''a''" and fb = "''a''" and fc = "''a''" and fd = "''a''"
         and fe = "''a''" and ff = "''a''" and fg = "''a''"]
    by blast
  also have "\<dots> = [Some 100000000, Some 200000000, Some 400000000]"
    unfolding three by (simp add: milliseconds_def)
  finally show ?thesis using h by simp
qed

text \<open>
  C7. The handler of a wait that completes with \<open>operation_aborted\<close> invokes no
  callable and leaves the \<open>Retry\<close>, so its attempt number, as it was. When a \<open>Retry\<close>
  with no outstanding wait schedules a callable and the timer is cancelled before it
  fires, running the completed handlers invokes nothing, the attempt number is the one
  before the call, and no wait is left.
\<close>

theorem cancelled_retry_is_silent:
  "wait_handler func operation_aborted r = (r, []) \<and>
   (waits (timer r) = [] \<longrightarrow>
      snd (run_completed ((retry func r)\<lparr>timer := timer_cancel (timer (retry func r))\<rparr>)) = [] \<and>
      attemptNumber (fst (run_completed ((retry func r)\<lparr>timer := timer_cancel (timer (retry func r))\<rparr>)))
        = attemptNumber r \<and>
      waits (timer (fst (run_completed ((retry func r)\<lparr>timer := timer_cancel (timer (retry func r))\<rparr>))))
        = [])"
  by (simp add: wait_handler_def run_completed_def retry_def Let_def expires_after_def async_wait_def
      timer_cancel_def complete_pending_def)

lemma fired_retry_invokes:
  "waits (timer r) = [] \<Longrightarrow>
     snd (run_completed ((retry func r)\<lparr>timer := timer_fire (timer (retry func r))\<rparr>)) = [func] \<and>
     attemptNumber (fst (run_completed ((retry func r)\<lparr>timer := timer_fire (timer (retry func r))\<rparr>)))
       = attemptNumber r + 1"
  by (simp add: wait_handler_def run_completed_def retry_def Let_def expires_after_def async_wait_def
      timer_fire_def complete_pending_def)

theorem cancelled_retry_is_silent_witness:
  "waits (timer (makeRetryExponentialBackoff (milliseconds 100) (milliseconds 1600) :: string Retry)) = [] \<and>
   run_completed
     ((retry ''reconnect'' (makeRetryExponentialBackoff (milliseconds 100) (milliseconds 1600)))
        \<lparr>timer := timer_cancel
           (timer (retry ''reconnect'' (makeRetryExponentialBackoff (milliseconds 100) (milliseconds 1600))))\<rparr>)
   = (\<lparr>strategy = increaseDelay (ExponentialBackoffStrategy (milliseconds 100) (milliseconds 1600)),
       timer = \<lparr>expiry = Some (milliseconds 100), waits = []\<rparr>, attemptNumber = 0\<rparr>, [])"
  using cancelled_retry_is_silent
    [of "''reconnect''" "makeRetryExponentialBackoff (milliseconds 100) (milliseconds 1600)"]
  by (simp add: wait_handler_def run_completed_def retry_def Let_def expires_after_def async_wait_def
      timer_cancel_def complete_pending_def makeRetryExponentialBackoff_def getDelay_def
      ExponentialBackoffStrategy_def)

end
